theory Spec2Isabelle
  imports Main
begin

section \<open>Python values and exceptions\<close>

text \<open>
  The exceptions that the address book raises or lets through. \<open>ValueError\<close> carries
  its message, since callers print it.
\<close>

datatype exn =
    ValueError string
  | AttributeError
  | TypeError
  | KeyError
  | IndexError
  | FileNotFoundError
  | EOFError
  | UnpicklingError

text \<open>
  A Python \<open>str\<close> is a sequence of code points. The model takes the code points below
  256, which is what \<^typ>\<open>char\<close> holds, so \<^term>\<open>length\<close> counts what \<open>len\<close> counts.
  A range of characters, as \<open>[1-9]\<close> in a regular expression, is a range of code
  points. On the code points below 256 \<open>str.isdigit\<close> accepts the ten decimal digits
  and also the superscript digits U+00B2, U+00B3 and U+00B9, which are digits but not
  decimal characters.
\<close>

definition in_range :: "char \<Rightarrow> char \<Rightarrow> char \<Rightarrow> bool" where
  "in_range lo hi c \<longleftrightarrow> (of_char lo :: nat) \<le> of_char c \<and> (of_char c :: nat) \<le> of_char hi"

definition decimal_char :: "char \<Rightarrow> bool" where
  "decimal_char c \<longleftrightarrow> in_range CHR ''0'' CHR ''9'' c"

definition superscript_char :: "char \<Rightarrow> bool" where
  "superscript_char c \<longleftrightarrow> c \<in> {CHR 0xB2, CHR 0xB3, CHR 0xB9}"

definition isdigit_char :: "char \<Rightarrow> bool" where
  "isdigit_char c \<longleftrightarrow> decimal_char c \<or> superscript_char c"

text \<open>\<open>str.isdigit()\<close>: at least one character, and every character a digit.\<close>

definition isdigit :: "string \<Rightarrow> bool" where
  "isdigit s \<longleftrightarrow> s \<noteq> [] \<and> list_all isdigit_char s"

text \<open>Truth value of a \<open>str\<close>: the empty string is false.\<close>

definition truthy :: "string \<Rightarrow> bool" where
  "truthy s \<longleftrightarrow> s \<noteq> []"

section \<open>Fields\<close>

text \<open>
  \<open>class Field\<close>: one attribute \<open>_value\<close>, read by the property \<open>value\<close> and replaced
  by its setter. The setter stores what it is given. \<open>Name\<close>, \<open>Phone\<close> and \<open>Birthday\<close>
  inherit both and override neither.
\<close>

datatype 'a Field = Field (val: 'a)

definition set_value :: "'a \<Rightarrow> 'a Field \<Rightarrow> 'a Field" where
  "set_value new_value f = Field new_value"

type_synonym Name = "string Field"
type_synonym Phone = "string Field"

text \<open>\<open>Name.__init__\<close>\<close>

definition Name :: "string \<Rightarrow> exn + Name" where
  "Name v = (if \<not> truthy v then Inl (ValueError ''Name cannot be empty'') else Inr (Field v))"

text \<open>
  \<open>Phone.validate_phone_format\<close>. The condition is
  \<open>value and not value.isdigit() or len(value) != 10\<close>, where \<open>and\<close> binds tighter
  than \<open>or\<close>.
\<close>

definition validate_phone_format :: "string \<Rightarrow> exn + unit" where
  "validate_phone_format v =
     (if (truthy v \<and> \<not> isdigit v) \<or> length v \<noteq> 10
      then Inl (ValueError ''Phone number should be a 10-digit number'')
      else Inr ())"

text \<open>\<open>Phone.__init__\<close>: validate, then store.\<close>

definition Phone :: "string \<Rightarrow> exn + Phone" where
  "Phone v = (case validate_phone_format v of Inl e \<Rightarrow> Inl e | Inr _ \<Rightarrow> Inr (Field v))"

section \<open>Dates\<close>

text \<open>
  \<open>datetime.datetime\<close>, with the calendar arithmetic of the standard library
  (\<open>_is_leap\<close>, \<open>_days_in_month\<close>, \<open>_days_before_year\<close>, \<open>_days_before_month\<close>,
  \<open>_ymd2ord\<close>). Years run from 1 to 9999.
\<close>

record datetime =
  year :: int
  month :: int
  day :: int
  hour :: int
  minute :: int
  second :: int
  microsecond :: int

definition is_leap :: "int \<Rightarrow> bool" where
  "is_leap y \<longleftrightarrow> y mod 4 = 0 \<and> (y mod 100 \<noteq> 0 \<or> y mod 400 = 0)"

definition month_lengths :: "int list" where
  "month_lengths = [31, 28, 31, 30, 31, 30, 31, 31, 30, 31, 30, 31]"

definition days_in_month :: "int \<Rightarrow> int \<Rightarrow> int" where
  "days_in_month y m =
     (if m = 2 \<and> is_leap y then 29 else month_lengths ! nat (m - 1))"

definition days_before_year :: "int \<Rightarrow> int" where
  "days_before_year y =
     (y - 1) * 365 + (y - 1) div 4 - (y - 1) div 100 + (y - 1) div 400"

definition days_before_month :: "int \<Rightarrow> int \<Rightarrow> int" where
  "days_before_month y m =
     sum_list (take (nat (m - 1)) month_lengths) + (if m > 2 \<and> is_leap y then 1 else 0)"

definition ymd2ord :: "int \<Rightarrow> int \<Rightarrow> int \<Rightarrow> int" where
  "ymd2ord y m d = days_before_year y + days_before_month y m + d"

text \<open>
  The date check of the constructor. It raises \<open>ValueError\<close>; the library's message
  names the offending number, which the model leaves out.
\<close>

definition check_date_fields :: "int \<Rightarrow> int \<Rightarrow> int \<Rightarrow> exn + unit" where
  "check_date_fields y m d =
     (if \<not> (1 \<le> y \<and> y \<le> 9999) then Inl (ValueError ''year is out of range'')
      else if \<not> (1 \<le> m \<and> m \<le> 12) then Inl (ValueError ''month must be in 1..12'')
      else if \<not> (1 \<le> d \<and> d \<le> days_in_month y m)
        then Inl (ValueError ''day is out of range for month'')
      else Inr ())"

text \<open>\<open>datetime(year, month, day)\<close>: the time of day is midnight.\<close>

definition datetime_ymd :: "int \<Rightarrow> int \<Rightarrow> int \<Rightarrow> exn + datetime" where
  "datetime_ymd y m d =
     (case check_date_fields y m d of
        Inl e \<Rightarrow> Inl e
      | Inr _ \<Rightarrow> Inr \<lparr>year = y, month = m, day = d,
                      hour = 0, minute = 0, second = 0, microsecond = 0\<rparr>)"

text \<open>A datetime that the constructor would have accepted.\<close>

definition valid_datetime :: "datetime \<Rightarrow> bool" where
  "valid_datetime t \<longleftrightarrow>
     1 \<le> year t \<and> year t \<le> 9999 \<and> 1 \<le> month t \<and> month t \<le> 12 \<and>
     1 \<le> day t \<and> day t \<le> days_in_month (year t) (month t) \<and>
     0 \<le> hour t \<and> hour t < 24 \<and> 0 \<le> minute t \<and> minute t < 60 \<and>
     0 \<le> second t \<and> second t < 60 \<and> 0 \<le> microsecond t \<and> microsecond t < 1000000"

definition toordinal :: "datetime \<Rightarrow> int" where
  "toordinal t = ymd2ord (year t) (month t) (day t)"

text \<open>\<open>a < b\<close> on datetimes compares the field tuples from the year down.\<close>

fun cmp_less :: "int list \<Rightarrow> int list \<Rightarrow> bool" where
  "cmp_less (x # xs) (y # ys) = (x < y \<or> (x = y \<and> cmp_less xs ys))"
| "cmp_less [] (y # ys) = True"
| "cmp_less xs [] = False"

definition getstate :: "datetime \<Rightarrow> int list" where
  "getstate t = [year t, month t, day t, hour t, minute t, second t, microsecond t]"

definition datetime_less :: "datetime \<Rightarrow> datetime \<Rightarrow> bool" where
  "datetime_less a b = cmp_less (getstate a) (getstate b)"

text \<open>
  \<open>(a - b).days\<close>: the difference is a \<open>timedelta\<close>, normalised so that seconds and
  microseconds are not negative; its \<open>days\<close> is the floor of the difference in days.
\<close>

definition total_microseconds :: "datetime \<Rightarrow> int" where
  "total_microseconds t =
     ((toordinal t * 86400 + hour t * 3600 + minute t * 60 + second t) * 1000000
        + microsecond t)"

definition sub_days :: "datetime \<Rightarrow> datetime \<Rightarrow> int" where
  "sub_days a b = (total_microseconds a - total_microseconds b) div (86400 * 1000000)"

section \<open>Parsing a date\<close>

text \<open>
  \<open>datetime.strptime(value, '%d.%m.%Y')\<close>. The library turns the format into the
  regular expression
  \<^verbatim>\<open>(?P<d>3[0-1]|[1-2]\d|0[1-9]|[1-9]| [1-9])\.(?P<m>1[0-2]|0[1-9]|[1-9])\.(?P<Y>\d\d\d\d)\<close>,
  matches it at the start of the text, rejects text left over after the match, and
  builds the date from the three groups. Each piece below returns the ways it can match
  a prefix, in the order the alternatives are tried, as (matched text, rest).
\<close>

definition re1 :: "(char \<Rightarrow> bool) \<Rightarrow> string \<Rightarrow> (string \<times> string) list" where
  "re1 P s = (case s of a # r \<Rightarrow> if P a then [([a], r)] else [] | [] \<Rightarrow> [])"

definition re2 ::
  "(char \<Rightarrow> bool) \<Rightarrow> (char \<Rightarrow> bool) \<Rightarrow> string \<Rightarrow> (string \<times> string) list" where
  "re2 P Q s =
     (case s of a # b # r \<Rightarrow> if P a \<and> Q b then [([a, b], r)] else [] | _ \<Rightarrow> [])"

definition re_d :: "string \<Rightarrow> (string \<times> string) list" where
  "re_d s =
     re2 ((=) CHR ''3'') (in_range CHR ''0'' CHR ''1'') s
   @ re2 (in_range CHR ''1'' CHR ''2'') decimal_char s
   @ re2 ((=) CHR ''0'') (in_range CHR ''1'' CHR ''9'') s
   @ re1 (in_range CHR ''1'' CHR ''9'') s
   @ re2 ((=) CHR '' '') (in_range CHR ''1'' CHR ''9'') s"

definition re_m :: "string \<Rightarrow> (string \<times> string) list" where
  "re_m s =
     re2 ((=) CHR ''1'') (in_range CHR ''0'' CHR ''2'') s
   @ re2 ((=) CHR ''0'') (in_range CHR ''1'' CHR ''9'') s
   @ re1 (in_range CHR ''1'' CHR ''9'') s"

definition re_Y :: "string \<Rightarrow> (string \<times> string) list" where
  "re_Y s =
     (case s of
        a # b # c # d # r \<Rightarrow>
          if decimal_char a \<and> decimal_char b \<and> decimal_char c \<and> decimal_char d
          then [([a, b, c, d], r)] else []
      | _ \<Rightarrow> [])"

definition re_dot :: "string \<Rightarrow> string list" where
  "re_dot s = (case s of a # r \<Rightarrow> if a = CHR ''.'' then [r] else [] | [] \<Rightarrow> [])"

text \<open>All matches of the whole expression, first choice first.\<close>

definition re_matches :: "string \<Rightarrow> (string \<times> string \<times> string \<times> string) list" where
  "re_matches s =
     [(d, m, y, r5).
        (d, r1) \<leftarrow> re_d s, r2 \<leftarrow> re_dot r1,
        (m, r3) \<leftarrow> re_m r2, r4 \<leftarrow> re_dot r3,
        (y, r5) \<leftarrow> re_Y r4]"

text \<open>
  \<open>int(text)\<close> for the text of a group: blanks in front are skipped, the rest is read
  as a decimal numeral.
\<close>

definition digit_val :: "char \<Rightarrow> int" where
  "digit_val c = int (of_char c) - 48"

definition py_int :: "string \<Rightarrow> int" where
  "py_int s = foldl (\<lambda>acc c. 10 * acc + digit_val c) 0 (dropWhile ((=) CHR '' '') s)"

definition strptime :: "string \<Rightarrow> exn + datetime" where
  "strptime s =
     (case re_matches s of
        [] \<Rightarrow> Inl (ValueError ''time data does not match format'')
      | (d, m, y, rest) # _ \<Rightarrow>
          if rest \<noteq> [] then Inl (ValueError ''unconverted data remains'')
          else datetime_ymd (py_int y) (py_int m) (py_int d))"

section \<open>Birthday\<close>

text \<open>
  The value of a \<open>Birthday\<close> is whatever was stored: the constructor stores the text it
  validated, and \<open>days_to_birthday\<close> reads the value as a datetime.
\<close>

datatype pyval = PStr string | PDateTime datetime

type_synonym Birthday = "pyval Field"

text \<open>
  \<open>Birthday.validate_birthday_format\<close>: every \<open>ValueError\<close> of the parser is replaced by
  one with the message of this class.
\<close>

definition validate_birthday_format :: "string \<Rightarrow> exn + datetime" where
  "validate_birthday_format v =
     (case strptime v of
        Inl (ValueError _) \<Rightarrow> Inl (ValueError ''Birthday is not a date'')
      | Inl e \<Rightarrow> Inl e
      | Inr t \<Rightarrow> Inr t)"

text \<open>\<open>Birthday.__init__\<close>: the parsed date is dropped, the text is stored.\<close>

definition Birthday :: "string \<Rightarrow> exn + Birthday" where
  "Birthday v =
     (case validate_birthday_format v of Inl e \<Rightarrow> Inl e | Inr _ \<Rightarrow> Inr (Field (PStr v)))"

section \<open>Record\<close>

record Record =
  name :: Name
  phones :: "Phone list"
  birthday :: "Birthday option"

text \<open>
  \<open>Record.__init__(name, birthday=None)\<close>. The birthday is built only from a text that
  is true, that is, given and not empty.
\<close>

definition Record_init :: "string \<Rightarrow> string option \<Rightarrow> exn + Record" where
  "Record_init n b =
     (case Name n of
        Inl e \<Rightarrow> Inl e
      | Inr nm \<Rightarrow>
          (case b of
             None \<Rightarrow> Inr \<lparr>name = nm, phones = [], birthday = None\<rparr>
           | Some v \<Rightarrow>
               if truthy v then
                 (case Birthday v of
                    Inl e \<Rightarrow> Inl e
                  | Inr bd \<Rightarrow> Inr \<lparr>name = nm, phones = [], birthday = Some bd\<rparr>)
               else Inr \<lparr>name = nm, phones = [], birthday = None\<rparr>))"

text \<open>
  A method that changes the record returns what it raised or returned, and the record
  as it is afterwards. A record owns its phones: \<open>add_phone\<close> makes a new object for
  each, so changing one phone in place is a change at its position in the list.
\<close>

definition add_phone :: "string \<Rightarrow> Record \<Rightarrow> (exn + unit) \<times> Record" where
  "add_phone phone_number r =
     (case Phone phone_number of
        Inl e \<Rightarrow> (Inl e, r)
      | Inr phone \<Rightarrow> (Inr (), r\<lparr>phones := phones r @ [phone]\<rparr>))"

text \<open>
  \<open>list.remove(x)\<close> takes out the first element equal to \<open>x\<close> and raises \<open>ValueError\<close>
  when there is none. \<open>Phone.__eq__\<close> compares the values.
\<close>

fun list_remove :: "'a \<Rightarrow> 'a list \<Rightarrow> exn + 'a list" where
  "list_remove x [] = Inl (ValueError ''list.remove(x): x not in list'')"
| "list_remove x (y # ys) =
     (if y = x then Inr ys
      else (case list_remove x ys of Inl e \<Rightarrow> Inl e | Inr zs \<Rightarrow> Inr (y # zs)))"

text \<open>\<open>remove_phone\<close>: the loop stops at the first phone with the value.\<close>

fun remove_phone_loop :: "string \<Rightarrow> Phone list \<Rightarrow> Phone list \<Rightarrow> exn + Phone list" where
  "remove_phone_loop phone_number all_phones [] = Inr all_phones"
| "remove_phone_loop phone_number all_phones (phone # rest) =
     (if val phone = phone_number then list_remove phone all_phones
      else remove_phone_loop phone_number all_phones rest)"

definition remove_phone :: "string \<Rightarrow> Record \<Rightarrow> (exn + unit) \<times> Record" where
  "remove_phone phone_number r =
     (case remove_phone_loop phone_number (phones r) (phones r) of
        Inl e \<Rightarrow> (Inl e, r)
      | Inr ps \<Rightarrow> (Inr (), r\<lparr>phones := ps\<rparr>))"

text \<open>
  \<open>find_phone\<close>: each round of the loop builds \<open>Phone(phone_number)\<close> to compare with,
  so the number is validated as often as there are phones to look at. \<open>None\<close> is the
  result when the loop ends.
\<close>

fun find_phone_loop :: "string \<Rightarrow> Phone list \<Rightarrow> exn + Phone option" where
  "find_phone_loop phone_number [] = Inr None"
| "find_phone_loop phone_number (phone # rest) =
     (case Phone phone_number of
        Inl e \<Rightarrow> Inl e
      | Inr other \<Rightarrow>
          if phone = other then Inr (Some phone)
          else find_phone_loop phone_number rest)"

definition find_phone :: "string \<Rightarrow> Record \<Rightarrow> exn + Phone option" where
  "find_phone phone_number r = find_phone_loop phone_number (phones r)"

text \<open>
  \<open>edit_phone\<close>: the first phone with the old value gets the new value through the
  setter of \<open>Field\<close>; the loop returns there. \<open>None\<close> is the loop ending without a
  match, after which the method raises.
\<close>

fun edit_phone_loop :: "string \<Rightarrow> string \<Rightarrow> Phone list \<Rightarrow> Phone list option" where
  "edit_phone_loop old_phone_number new_phone_number [] = None"
| "edit_phone_loop old_phone_number new_phone_number (phone # rest) =
     (if val phone = old_phone_number then Some (set_value new_phone_number phone # rest)
      else map_option ((#) phone) (edit_phone_loop old_phone_number new_phone_number rest))"

definition edit_phone :: "string \<Rightarrow> string \<Rightarrow> Record \<Rightarrow> (exn + unit) \<times> Record" where
  "edit_phone old_phone_number new_phone_number r =
     (case edit_phone_loop old_phone_number new_phone_number (phones r) of
        Some ps \<Rightarrow> (Inr (), r\<lparr>phones := ps\<rparr>)
      | None \<Rightarrow> (Inl (ValueError ''Phone number to be edited was not found''), r))"

text \<open>
  \<open>days_to_birthday\<close>. The clock is an argument: \<open>now\<close> is what \<open>datetime.now()\<close>
  returns. \<open>value.strftime\<close> exists on a datetime and not on a \<open>str\<close>, where the
  attribute lookup raises \<open>AttributeError\<close>. \<open>int(value.strftime("%d"))\<close> is the day of
  the datetime, and the same for the month.
\<close>

datatype days_left = Days int | NotImplemented

definition thenE :: "exn + 'a \<Rightarrow> ('a \<Rightarrow> exn + 'b) \<Rightarrow> exn + 'b" where
  "thenE x f = (case x of Inl e \<Rightarrow> Inl e | Inr a \<Rightarrow> f a)"

definition strftime_int :: "(datetime \<Rightarrow> int) \<Rightarrow> pyval \<Rightarrow> exn + int" where
  "strftime_int field v =
     (case v of PStr _ \<Rightarrow> Inl AttributeError | PDateTime t \<Rightarrow> Inr (field t))"

definition days_to_birthday :: "datetime \<Rightarrow> Record \<Rightarrow> exn + days_left" where
  "days_to_birthday now r =
     (case birthday r of
        None \<Rightarrow> Inr NotImplemented
      | Some b \<Rightarrow>
          thenE (datetime_ymd (year now) (month now) (day now)) (\<lambda>today_birthday.
          thenE (strftime_int day (val b)) (\<lambda>d.
          thenE (strftime_int month (val b)) (\<lambda>m.
          thenE (datetime_ymd (year now) m d) (\<lambda>next_birthday.
          thenE (if datetime_less next_birthday today_birthday
                 then datetime_ymd (year now + 1) m d
                 else Inr next_birthday) (\<lambda>next_birthday.
          Inr (Days (sub_days next_birthday today_birthday))))))))"

text \<open>
  The calls that change a record, for running several in a row. A call that raises
  leaves the record as \<^const>\<open>add_phone\<close>, \<^const>\<open>remove_phone\<close> and
  \<^const>\<open>edit_phone\<close> return it, and the next call goes on from there.
\<close>

datatype record_op = AddPhone string | RemovePhone string | EditPhone string string

fun apply_op :: "record_op \<Rightarrow> Record \<Rightarrow> Record" where
  "apply_op (AddPhone n) r = snd (add_phone n r)"
| "apply_op (RemovePhone n) r = snd (remove_phone n r)"
| "apply_op (EditPhone old new) r = snd (edit_phone old new r)"

fun run_ops :: "record_op list \<Rightarrow> Record \<Rightarrow> Record" where
  "run_ops [] r = r"
| "run_ops (operation # rest) r = run_ops rest (apply_op operation r)"

section \<open>AddressBook\<close>

text \<open>
  \<open>AddressBook\<close> is a \<open>UserDict\<close>: its \<open>data\<close> is a \<open>dict\<close> from the name to the record.
  A \<open>dict\<close> keeps its keys in the order of their first insertion, so it is a list of
  pairs with distinct keys.
\<close>

type_synonym dict = "(string \<times> Record) list"

definition dict_keys :: "dict \<Rightarrow> string list" where
  "dict_keys d = map fst d"

definition dict_values :: "dict \<Rightarrow> Record list" where
  "dict_values d = map snd d"

definition dict_contains :: "string \<Rightarrow> dict \<Rightarrow> bool" where
  "dict_contains k d \<longleftrightarrow> k \<in> set (dict_keys d)"

definition dict_getitem :: "dict \<Rightarrow> string \<Rightarrow> exn + Record" where
  "dict_getitem d k = (case map_of d k of None \<Rightarrow> Inl KeyError | Some v \<Rightarrow> Inr v)"

fun dict_setitem :: "string \<Rightarrow> Record \<Rightarrow> dict \<Rightarrow> dict" where
  "dict_setitem k v [] = [(k, v)]"
| "dict_setitem k v ((k', v') # d) =
     (if k' = k then (k', v) # d else (k', v') # dict_setitem k v d)"

definition dict_delitem :: "string \<Rightarrow> dict \<Rightarrow> exn + dict" where
  "dict_delitem k d =
     (if dict_contains k d then Inr (filter (\<lambda>kv. fst kv \<noteq> k) d) else Inl KeyError)"

text \<open>\<open>xs[i]\<close> on a list: an index below zero counts from the end.\<close>

definition list_getitem :: "'a list \<Rightarrow> int \<Rightarrow> exn + 'a" where
  "list_getitem xs i =
     (if 0 \<le> i \<and> i < int (length xs) then Inr (xs ! nat i)
      else if i < 0 \<and> 0 \<le> i + int (length xs) then Inr (xs ! nat (i + int (length xs)))
      else Inl IndexError)"

record AddressBook =
  data :: dict

definition AddressBook_init :: AddressBook where
  "AddressBook_init = \<lparr>data = []\<rparr>"

definition add_record :: "Record \<Rightarrow> AddressBook \<Rightarrow> AddressBook" where
  "add_record record book =
     (let record_name = val (name record)
      in book\<lparr>data := dict_setitem record_name record (data book)\<rparr>)"

definition find_record :: "string \<Rightarrow> AddressBook \<Rightarrow> exn + Record option" where
  "find_record n book =
     (if dict_contains n (data book) then thenE (dict_getitem (data book) n) (\<lambda>r. Inr (Some r))
      else Inr None)"

definition delete :: "string \<Rightarrow> AddressBook \<Rightarrow> (exn + unit) \<times> AddressBook" where
  "delete n book =
     (if dict_contains n (data book) then
        (case dict_delitem n (data book) of
           Inl e \<Rightarrow> (Inl e, book)
         | Inr d \<Rightarrow> (Inr (), book\<lparr>data := d\<rparr>))
      else (Inr (), book))"

text \<open>
  \<open>iterate\<close> is a generator. The model runs it to its end: the result is the list of the
  pages it yields, or the exception that ends it; a generator that never ends has no
  result, which is \<open>None\<close>. \<open>range(a, b)\<close> is \<open>[a..b - 1]\<close>.
\<close>

fun mapE :: "('a \<Rightarrow> exn + 'b) \<Rightarrow> 'a list \<Rightarrow> exn + 'b list" where
  "mapE f [] = Inr []"
| "mapE f (x # xs) =
     thenE (f x) (\<lambda>y. thenE (mapE f xs) (\<lambda>ys. Inr (y # ys)))"

definition page :: "dict \<Rightarrow> string list \<Rightarrow> int \<Rightarrow> int \<Rightarrow> exn + Record list" where
  "page d keys lo hi = mapE (\<lambda>i. thenE (list_getitem keys i) (dict_getitem d)) [lo..hi - 1]"

partial_function (option) iterate_loop ::
  "dict \<Rightarrow> string list \<Rightarrow> int \<Rightarrow> int \<Rightarrow> int \<Rightarrow> (exn + Record list list) option" where
  [code]: "iterate_loop d keys all_records records_per_iteration records =
     (if records < all_records then
        (case page d keys records (min (records + records_per_iteration) all_records) of
           Inl e \<Rightarrow> Some (Inl e)
         | Inr p \<Rightarrow>
             Option.bind
               (iterate_loop d keys all_records records_per_iteration
                  (records + records_per_iteration))
               (\<lambda>later. Some (thenE later (\<lambda>ps. Inr (p # ps)))))
      else Some (Inr []))"

definition iterate :: "int \<Rightarrow> AddressBook \<Rightarrow> (exn + Record list list) option" where
  "iterate records_per_iteration book =
     (let keys = dict_keys (data book);
          records = 0;
          all_records = int (length keys)
      in iterate_loop (data book) keys all_records records_per_iteration records)"

text \<open>
  The files. A file system maps a file name to the content of the file. \<open>pickle\<close> is
  the library's: \<open>dump\<close> turns the dictionary into a content and \<open>load\<close> reads one back
  or raises. Both are arguments of the two methods. \<open>load\<close> raises \<open>EOFError\<close> when the
  content ends where the next instruction should begin, as an empty file does.
\<close>

type_synonym 'b filesystem = "string \<Rightarrow> 'b option"

definition write_to_file ::
  "(dict \<Rightarrow> 'b) \<Rightarrow> string \<Rightarrow> AddressBook \<Rightarrow> 'b filesystem \<Rightarrow> 'b filesystem" where
  "write_to_file pickle_dump filename book fs = fs(filename \<mapsto> pickle_dump (data book))"

text \<open>
  \<open>read_contacts_from_file\<close>: \<open>FileNotFoundError\<close> from \<open>open\<close> and \<open>EOFError\<close> from
  \<open>pickle.load\<close> are caught and answered with an empty book; any other exception goes to
  the caller.
\<close>

definition open_rb :: "string \<Rightarrow> 'b filesystem \<Rightarrow> exn + 'b" where
  "open_rb filename fs = (case fs filename of None \<Rightarrow> Inl FileNotFoundError | Some c \<Rightarrow> Inr c)"

definition read_contacts_from_file ::
  "('b \<Rightarrow> exn + dict) \<Rightarrow> string \<Rightarrow> 'b filesystem \<Rightarrow> exn + AddressBook" where
  "read_contacts_from_file pickle_load filename fs =
     (case thenE (open_rb filename fs) (\<lambda>fh.
           thenE (pickle_load fh) (\<lambda>d.
           Inr (AddressBook_init\<lparr>data := d\<rparr>))) of
        Inl FileNotFoundError \<Rightarrow> Inr AddressBook_init
      | Inl EOFError \<Rightarrow> Inr AddressBook_init
      | Inl e \<Rightarrow> Inl e
      | Inr book \<Rightarrow> Inr book)"




section \<open>Predicates of the specification\<close>

text \<open>
  The format of a phone number as the constructor enforces it: ten characters, each one
  a digit for \<open>str.isdigit\<close>.
\<close>

definition phone_format :: "string \<Rightarrow> bool" where
  "phone_format s \<longleftrightarrow> length s = 10 \<and> list_all isdigit_char s"

definition valid_phone :: "Phone \<Rightarrow> bool" where
  "valid_phone p \<longleftrightarrow> phone_format (val p)"

text \<open>A call that gives \<open>edit_phone\<close> a new value gives it one in the format.\<close>

fun edit_value_valid :: "record_op \<Rightarrow> bool" where
  "edit_value_valid (EditPhone old new) \<longleftrightarrow> phone_format new"
| "edit_value_valid (AddPhone n) \<longleftrightarrow> True"
| "edit_value_valid (RemovePhone n) \<longleftrightarrow> True"

text \<open>
  Cutting a list into pages of \<open>k\<close> elements, the last one with what is left.
\<close>

function pages_of :: "nat \<Rightarrow> 'a list \<Rightarrow> 'a list list" where
  "pages_of k xs = (if k = 0 \<or> xs = [] then [] else take k xs # pages_of k (drop k xs))"
  by pat_completeness auto
termination
  by (relation "measure (\<lambda>(k, xs). length xs)") auto

declare pages_of.simps [simp del]

text \<open>A book of three contacts without phones, for the examples.\<close>

definition three_contacts :: AddressBook where
  "three_contacts =
     \<lparr>data = [(''a'', \<lparr>name = Field ''a'', phones = [], birthday = None\<rparr>),
              (''b'', \<lparr>name = Field ''b'', phones = [], birthday = None\<rparr>),
              (''c'', \<lparr>name = Field ''c'', phones = [], birthday = None\<rparr>)]\<rparr>"

text \<open>
  A stand-in for \<open>pickle\<close> in the examples: the content of a file is the dictionary
  itself, or nothing when the file is empty.
\<close>

definition example_load :: "dict option \<Rightarrow> exn + dict" where
  "example_load c = (case c of None \<Rightarrow> Inl EOFError | Some d \<Rightarrow> Inr d)"

text \<open>
  The next birthday is in the next year when the day and month of the birthday are
  strictly before those of today, and in this year otherwise.
\<close>

definition birthday_passed :: "datetime \<Rightarrow> datetime \<Rightarrow> bool" where
  "birthday_passed now b \<longleftrightarrow> month b < month now \<or> (month b = month now \<and> day b < day now)"

definition next_birthday_year :: "datetime \<Rightarrow> datetime \<Rightarrow> int" where
  "next_birthday_year now b = (if birthday_passed now b then year now + 1 else year now)"

text \<open>Dates and records for the examples.\<close>

definition midnight :: "int \<Rightarrow> int \<Rightarrow> int \<Rightarrow> datetime" where
  "midnight y m d =
     \<lparr>year = y, month = m, day = d, hour = 0, minute = 0, second = 0, microsecond = 0\<rparr>"

definition morning_of_2024_01_10 :: datetime where
  "morning_of_2024_01_10 =
     \<lparr>year = 2024, month = 1, day = 10, hour = 9, minute = 30, second = 15, microsecond = 250\<rparr>"

definition contact_born :: "pyval \<Rightarrow> Record" where
  "contact_born v = \<lparr>name = Field ''X'', phones = [], birthday = Some (Field v)\<rparr>"














section \<open>Phone numbers\<close>

lemma decimal_is_digit: "decimal_char c \<Longrightarrow> isdigit_char c"
  by (simp add: isdigit_char_def)

lemma validate_phone_format_iff: "validate_phone_format s = Inr () \<longleftrightarrow> phone_format s"
  by (auto simp: validate_phone_format_def phone_format_def truthy_def isdigit_def)

lemma Phone_eq:
  "Phone s = (if phone_format s then Inr (Field s)
              else Inl (ValueError ''Phone number should be a 10-digit number''))"
  by (auto simp: Phone_def validate_phone_format_def phone_format_def truthy_def isdigit_def)

text \<open>
  Claim C3, as amended. The constructor of \<open>Phone\<close> raises exactly when the text is not
  ten characters long or has a character that \<open>str.isdigit\<close> does not accept; the
  exception is the \<open>ValueError\<close> of the class. Ten characters that \<open>str.isdigit\<close>
  accepts make a phone whose value is the text, and ten decimal digits are such a text.
\<close>

theorem Phone_construction:
  "(Phone s = Inl (ValueError ''Phone number should be a 10-digit number'')
      \<longleftrightarrow> length s \<noteq> 10 \<or> (\<exists>c \<in> set s. \<not> isdigit_char c))
   \<and> (length s = 10 \<and> (\<forall>c \<in> set s. isdigit_char c) \<longrightarrow> Phone s = Inr (Field s))
   \<and> (length s = 10 \<and> (\<forall>c \<in> set s. decimal_char c) \<longrightarrow> Phone s = Inr (Field s))"
  by (auto simp: Phone_eq phone_format_def list_all_iff decimal_is_digit)

theorem Phone_construction_witness:
  "length ''0123456789'' = 10 \<and> list_all decimal_char ''0123456789''
   \<and> Phone ''0123456789'' = Inr (Field ''0123456789'')"
  using Phone_construction [of "''0123456789''"] by (simp add: decimal_char_def in_range_def)

text \<open>
  Claim C3 as the specification has it fails on ten superscript twos: the character is
  not a decimal digit, and the constructor accepts the text.
\<close>

theorem Phone_superscript_counterexample:
  "\<not> decimal_char (CHR 0xB2)
   \<and> Phone [CHR 0xB2, CHR 0xB2, CHR 0xB2, CHR 0xB2, CHR 0xB2,
            CHR 0xB2, CHR 0xB2, CHR 0xB2, CHR 0xB2, CHR 0xB2]
     = Inr (Field [CHR 0xB2, CHR 0xB2, CHR 0xB2, CHR 0xB2, CHR 0xB2,
                   CHR 0xB2, CHR 0xB2, CHR 0xB2, CHR 0xB2, CHR 0xB2])"
  by (simp add: Phone_eq phone_format_def isdigit_char_def superscript_char_def
      decimal_char_def in_range_def)

section \<open>Editing a phone\<close>

lemma edit_phone_loop_None:
  "edit_phone_loop old new ps = None \<longleftrightarrow> old \<notin> val ` set ps"
  by (induction ps) auto

lemma edit_phone_loop_first:
  "old \<in> val ` set ps \<Longrightarrow>
   \<exists>i < length ps. val (ps ! i) = old \<and> (\<forall>j < i. val (ps ! j) \<noteq> old)
      \<and> edit_phone_loop old new ps = Some (ps[i := Field new])"
proof (induction ps)
  case Nil
  then show ?case by simp
next
  case (Cons p ps)
  show ?case
  proof (cases "val p = old")
    case True
    then have "val ((p # ps) ! 0) = old \<and> (\<forall>j < (0::nat). val ((p # ps) ! j) \<noteq> old)
        \<and> edit_phone_loop old new (p # ps) = Some ((p # ps)[0 := Field new])"
      by (simp add: set_value_def)
    then show ?thesis by blast
  next
    case False
    with Cons.prems have "old \<in> val ` set ps" by auto
    from Cons.IH [OF this] obtain i where i: "i < length ps" "val (ps ! i) = old"
      "\<forall>j < i. val (ps ! j) \<noteq> old" "edit_phone_loop old new ps = Some (ps[i := Field new])"
      by blast
    have "\<forall>j < Suc i. val ((p # ps) ! j) \<noteq> old"
      using False i(3) by (auto simp: nth_Cons split: nat.splits)
    with i False have "Suc i < length (p # ps) \<and> val ((p # ps) ! Suc i) = old
        \<and> (\<forall>j < Suc i. val ((p # ps) ! j) \<noteq> old)
        \<and> edit_phone_loop old new (p # ps) = Some ((p # ps)[Suc i := Field new])"
      by simp
    then show ?thesis by blast
  qed
qed

text \<open>
  Claim C6. When no phone of the record has the old value, \<open>edit_phone\<close> raises the
  \<open>ValueError\<close> with the message "Phone number to be edited was not found" and the
  record, its phone list included, is as before. When some phone has the old value,
  the call changes the list at one position only, the first one with the old value.
\<close>

theorem edit_phone_not_found_or_first:
  "(old \<notin> val ` set (phones r) \<longrightarrow>
      edit_phone old new r
        = (Inl (ValueError ''Phone number to be edited was not found''), r))
   \<and> (old \<in> val ` set (phones r) \<longrightarrow>
        (\<exists>i < length (phones r).
           val (phones r ! i) = old \<and> (\<forall>j < i. val (phones r ! j) \<noteq> old)
           \<and> edit_phone old new r = (Inr (), r\<lparr>phones := (phones r)[i := Field new]\<rparr>)))"
proof (intro conjI impI)
  assume "old \<notin> val ` set (phones r)"
  then have "edit_phone_loop old new (phones r) = None"
    by (simp add: edit_phone_loop_None)
  then show "edit_phone old new r
        = (Inl (ValueError ''Phone number to be edited was not found''), r)"
    by (simp add: edit_phone_def)
next
  assume "old \<in> val ` set (phones r)"
  from edit_phone_loop_first [OF this, of new] obtain i where
    i: "i < length (phones r)" "val (phones r ! i) = old" "\<forall>j < i. val (phones r ! j) \<noteq> old"
      "edit_phone_loop old new (phones r) = Some ((phones r)[i := Field new])"
    by blast
  then have "edit_phone old new r = (Inr (), r\<lparr>phones := (phones r)[i := Field new]\<rparr>)"
    by (simp add: edit_phone_def)
  with i show "\<exists>i < length (phones r).
           val (phones r ! i) = old \<and> (\<forall>j < i. val (phones r ! j) \<noteq> old)
           \<and> edit_phone old new r = (Inr (), r\<lparr>phones := (phones r)[i := Field new]\<rparr>)"
    by blast
qed

theorem edit_phone_not_found_or_first_witness:
  "''5555555555'' \<notin> val ` set [Field ''0123456789'', Field ''0123456789'']
   \<and> edit_phone ''5555555555'' ''9876543210''
        \<lparr>name = Field ''X'', phones = [Field ''0123456789'', Field ''0123456789''],
         birthday = None\<rparr>
      = (Inl (ValueError ''Phone number to be edited was not found''),
         \<lparr>name = Field ''X'', phones = [Field ''0123456789'', Field ''0123456789''],
          birthday = None\<rparr>)
   \<and> ''0123456789'' \<in> val ` set [Field ''0123456789'', Field ''0123456789'']
   \<and> fst (edit_phone ''0123456789'' ''9876543210''
        \<lparr>name = Field ''X'', phones = [Field ''0123456789'', Field ''0123456789''],
         birthday = None\<rparr>) = Inr ()"
  using
    edit_phone_not_found_or_first [of "''5555555555''"
      "\<lparr>name = Field ''X'', phones = [Field ''0123456789'', Field ''0123456789''],
        birthday = None\<rparr>" "''9876543210''"]
    edit_phone_not_found_or_first [of "''0123456789''"
      "\<lparr>name = Field ''X'', phones = [Field ''0123456789'', Field ''0123456789''],
        birthday = None\<rparr>" "''9876543210''"]
  by auto

text \<open>
  Claim C10. When some phone of the record has the old value, \<open>edit_phone\<close> returns
  normally and changes that phone where it is: the list has the length it had, the
  phone at the first position with the old value now has the new value, every phone at
  another position is the one that was there, and the name and the birthday are
  untouched.
\<close>

theorem edit_phone_in_place:
  assumes "old \<in> val ` set (phones r)"
  shows "\<exists>r' i. edit_phone old new r = (Inr (), r')
     \<and> length (phones r') = length (phones r)
     \<and> i < length (phones r) \<and> val (phones r ! i) = old
     \<and> (\<forall>j < i. val (phones r ! j) \<noteq> old) \<and> val (phones r' ! i) = new
     \<and> (\<forall>j < length (phones r). j \<noteq> i \<longrightarrow> phones r' ! j = phones r ! j)
     \<and> name r' = name r \<and> birthday r' = birthday r"
proof -
  from edit_phone_loop_first [OF assms, of new] obtain i where
    i: "i < length (phones r)" "val (phones r ! i) = old" "\<forall>j < i. val (phones r ! j) \<noteq> old"
      "edit_phone_loop old new (phones r) = Some ((phones r)[i := Field new])"
    by blast
  let ?r' = "r\<lparr>phones := (phones r)[i := Field new]\<rparr>"
  have "edit_phone old new r = (Inr (), ?r')"
    using i(4) by (simp add: edit_phone_def)
  moreover have "length (phones ?r') = length (phones r)" by simp
  moreover have "val (phones ?r' ! i) = new" using i(1) by simp
  moreover have "\<forall>j < length (phones r). j \<noteq> i \<longrightarrow> phones ?r' ! j = phones r ! j"
    by simp
  moreover have "name ?r' = name r \<and> birthday ?r' = birthday r" by simp
  ultimately show ?thesis using i(1,2,3) by blast
qed

theorem edit_phone_in_place_witness:
  "''0123456789'' \<in> val ` set [Field ''5555555555'', Field ''0123456789'']
   \<and> (\<exists>r'. edit_phone ''0123456789'' ''9876543210''
              \<lparr>name = Field ''X'', phones = [Field ''5555555555'', Field ''0123456789''],
               birthday = None\<rparr> = (Inr (), r')
           \<and> length (phones r') = 2)"
  using edit_phone_in_place [of "''0123456789''"
      "\<lparr>name = Field ''X'', phones = [Field ''5555555555'', Field ''0123456789''],
        birthday = None\<rparr>" "''9876543210''"]
  by auto

section \<open>The format of the phones of a record\<close>

lemma Phone_Inr: "Phone s = Inr p \<Longrightarrow> p = Field s \<and> phone_format s"
  by (auto simp: Phone_eq split: if_splits)

lemma list_remove_all:
  "list_all P xs \<Longrightarrow> list_remove x xs = Inr ys \<Longrightarrow> list_all P ys"
  by (induction xs arbitrary: ys) (auto split: if_splits sum.splits)

lemma remove_phone_loop_all:
  "list_all P all_phones \<Longrightarrow> remove_phone_loop n all_phones ps = Inr qs \<Longrightarrow> list_all P qs"
  by (induction ps) (auto split: if_splits dest: list_remove_all)

lemma edit_phone_loop_all:
  "list_all valid_phone ps \<Longrightarrow> phone_format new \<Longrightarrow>
   edit_phone_loop old new ps = Some qs \<Longrightarrow> list_all valid_phone qs"
  by (induction ps arbitrary: qs) (auto simp: valid_phone_def set_value_def split: if_splits)

lemma apply_op_valid:
  assumes "list_all valid_phone (phones r)" "edit_value_valid operation"
  shows "list_all valid_phone (phones (apply_op operation r))"
proof (cases operation)
  case (AddPhone n)
  then show ?thesis using assms(1)
    by (auto simp: add_phone_def valid_phone_def split: sum.splits dest: Phone_Inr)
next
  case (RemovePhone n)
  then show ?thesis using assms(1)
    by (auto simp: remove_phone_def split: sum.splits dest: remove_phone_loop_all)
next
  case (EditPhone old new)
  then show ?thesis using assms
    by (auto simp: edit_phone_def split: option.splits dest: edit_phone_loop_all)
qed

text \<open>
  Claim C1, as amended. The setter of a field stores the value it is given and runs no
  check; the checks run in the constructors. So the phones of a record keep the format
  of the constructor (ten characters, each a digit for \<open>str.isdigit\<close>) through any
  sequence of \<open>add_phone\<close>, \<open>remove_phone\<close> and \<open>edit_phone\<close> calls in which every new
  value given to \<open>edit_phone\<close> has that format.
\<close>

theorem phones_valid_after_operations:
  "val (set_value v f) = v
   \<and> (list_all valid_phone (phones r) \<longrightarrow> list_all edit_value_valid ops \<longrightarrow>
        list_all valid_phone (phones (run_ops ops r)))"
proof -
  have "list_all valid_phone (phones r) \<Longrightarrow> list_all edit_value_valid ops \<Longrightarrow>
        list_all valid_phone (phones (run_ops ops r))"
    by (induction ops arbitrary: r) (simp_all add: apply_op_valid)
  then show ?thesis by (simp add: set_value_def)
qed

theorem phones_valid_after_operations_witness:
  "list_all valid_phone (phones \<lparr>name = Field ''X'', phones = [], birthday = None\<rparr>)
   \<and> list_all edit_value_valid
        [AddPhone ''0123456789'', EditPhone ''0123456789'' ''9876543210'', AddPhone ''12'']
   \<and> list_all valid_phone
        (phones (run_ops
           [AddPhone ''0123456789'', EditPhone ''0123456789'' ''9876543210'', AddPhone ''12'']
           \<lparr>name = Field ''X'', phones = [], birthday = None\<rparr>))"
  using phones_valid_after_operations
    [of "''a''" "Field ''b''" "\<lparr>name = Field ''X'', phones = [], birthday = None\<rparr>"
        "[AddPhone ''0123456789'', EditPhone ''0123456789'' ''9876543210'', AddPhone ''12'']"]
  by (simp add: phone_format_def isdigit_char_def decimal_char_def in_range_def)

text \<open>
  Claim C1 as the specification has it fails: \<open>edit_phone\<close> with a new value of three
  letters leaves a phone of three letters in the record, a value that the constructor
  of \<open>Phone\<close> refuses.
\<close>

theorem edit_phone_unvalidated_counterexample:
  "phones (run_ops [AddPhone ''0123456789'', EditPhone ''0123456789'' ''abc'']
             \<lparr>name = Field ''X'', phones = [], birthday = None\<rparr>) = [Field ''abc'']
   \<and> length ''abc'' \<noteq> 10
   \<and> Phone ''abc'' = Inl (ValueError ''Phone number should be a 10-digit number'')"
  by (simp add: add_phone_def edit_phone_def Phone_eq phone_format_def isdigit_char_def
      decimal_char_def in_range_def set_value_def)

section \<open>Lookups\<close>

lemma find_phone_loop_valid:
  "phone_format n \<Longrightarrow> find_phone_loop n ps = Inr (List.find (\<lambda>p. val p = n) ps)"
proof (induction ps)
  case Nil
  then show ?case by simp
next
  case (Cons p ps)
  have "p = Field n \<longleftrightarrow> val p = n" by (cases p) simp
  with Cons show ?case by (simp add: Phone_eq)
qed

lemma find_phone_loop_invalid:
  "\<not> phone_format n \<Longrightarrow>
   find_phone_loop n ps =
     (if ps = [] then Inr None
      else Inl (ValueError ''Phone number should be a 10-digit number''))"
  by (cases ps) (simp_all add: Phone_eq)

lemma find_record_eq: "find_record n book = Inr (map_of (data book) n)"
proof (cases "map_of (data book) n")
  case None
  then have "n \<notin> fst ` set (data book)" by (simp add: map_of_eq_None_iff)
  with None show ?thesis by (simp add: find_record_def dict_contains_def dict_keys_def)
next
  case (Some v)
  then have "n \<in> fst ` set (data book)" by (metis map_of_eq_None_iff option.distinct(1))
  with Some show ?thesis
    by (simp add: find_record_def dict_contains_def dict_keys_def dict_getitem_def thenE_def)
qed

text \<open>
  Claim C7, as amended. \<open>find\<close> returns the record stored under exactly that name, or
  \<open>None\<close>, and raises nothing. \<open>find_phone\<close> with a number in the format of the
  constructor returns the first phone with that value, or \<open>None\<close>, and raises nothing.
  With a number not in that format it returns \<open>None\<close> when the record has no phones and
  raises the \<open>ValueError\<close> of \<open>Phone\<close> when it has one.
\<close>

theorem find_record_and_find_phone:
  "find_record n book = Inr (map_of (data book) n)
   \<and> (phone_format number \<longrightarrow>
        find_phone number r = Inr (List.find (\<lambda>p. val p = number) (phones r)))
   \<and> (\<not> phone_format number \<longrightarrow>
        find_phone number r =
          (if phones r = [] then Inr None
           else Inl (ValueError ''Phone number should be a 10-digit number'')))"
  by (simp add: find_record_eq find_phone_def find_phone_loop_valid find_phone_loop_invalid)

theorem find_record_and_find_phone_witness:
  "phone_format ''0123456789''
   \<and> find_phone ''0123456789''
        \<lparr>name = Field ''X'', phones = [Field ''5555555555'', Field ''0123456789''],
         birthday = None\<rparr> = Inr (Some (Field ''0123456789''))
   \<and> \<not> phone_format ''12''
   \<and> find_phone ''12'' \<lparr>name = Field ''X'', phones = [], birthday = None\<rparr> = Inr None"
  using
    find_record_and_find_phone [of "''X''" AddressBook_init "''0123456789''"
      "\<lparr>name = Field ''X'', phones = [Field ''5555555555'', Field ''0123456789''],
        birthday = None\<rparr>"]
    find_record_and_find_phone [of "''X''" AddressBook_init "''12''"
      "\<lparr>name = Field ''X'', phones = [], birthday = None\<rparr>"]
  by (simp add: phone_format_def isdigit_char_def decimal_char_def in_range_def)

text \<open>
  Claim C7 as the specification has it fails: the number \<open>123\<close> is not among the phones
  of the record, and \<open>find_phone\<close> raises instead of returning \<open>None\<close>.
\<close>

theorem find_phone_raises_counterexample:
  "''123'' \<notin> val ` set (phones \<lparr>name = Field ''X'', phones = [Field ''0123456789''],
                                 birthday = None\<rparr>)
   \<and> find_phone ''123'' \<lparr>name = Field ''X'', phones = [Field ''0123456789''],
                          birthday = None\<rparr>
       = Inl (ValueError ''Phone number should be a 10-digit number'')"
  by (simp add: find_phone_def Phone_eq phone_format_def)

section \<open>Pages\<close>

lemma mapE_Inr: "(\<And>x. x \<in> set xs \<Longrightarrow> f x = Inr (g x)) \<Longrightarrow> mapE f xs = Inr (map g xs)"
  by (induction xs) (simp_all add: thenE_def)

lemma upto_as_upt: "[int a..int b - 1] = map int [a..<b]"
proof (induction b)
  case 0
  then show ?case by simp
next
  case (Suc b)
  show ?case
  proof (cases "a \<le> b")
    case True
    then have "[int a..int (Suc b) - 1] = [int a..int b - 1] @ [int b]"
      using upto_rec2 [of "int a" "int b"] by simp
    with Suc True show ?thesis by simp
  next
    case False
    then show ?thesis by simp
  qed
qed

lemma nth_upt_take_drop:
  "hi \<le> length xs \<Longrightarrow> map ((!) xs) [lo..<hi] = take (hi - lo) (drop lo xs)"
  by (rule nth_equalityI) auto

lemma page_eq:
  assumes "distinct (map fst d)" "hi \<le> length d"
  shows "page d (map fst d) (int lo) (int hi) = Inr (take (hi - lo) (drop lo (map snd d)))"
proof -
  have step: "thenE (list_getitem (map fst d) x) (dict_getitem d) = Inr (map snd d ! nat x)"
    if "x \<in> set (map int [lo..<hi])" for x
  proof -
    from that obtain k where k: "x = int k" "k < hi" by auto
    with assms(2) have kd: "k < length d" by simp
    then have "(fst (d ! k), snd (d ! k)) \<in> set d" by simp
    with assms(1) have "map_of d (fst (d ! k)) = Some (snd (d ! k))"
      by (rule map_of_is_SomeI)
    with k kd show ?thesis
      by (simp add: list_getitem_def dict_getitem_def thenE_def)
  qed
  have "page d (map fst d) (int lo) (int hi)
          = Inr (map (\<lambda>x. map snd d ! nat x) (map int [lo..<hi]))"
    unfolding page_def upto_as_upt by (rule mapE_Inr) (rule step)
  also have "map (\<lambda>x. map snd d ! nat x) (map int [lo..<hi]) = map ((!) (map snd d)) [lo..<hi]"
    by (simp add: comp_def)
  also have "\<dots> = take (hi - lo) (drop lo (map snd d))"
    using assms(2) by (simp add: nth_upt_take_drop)
  finally show ?thesis .
qed

lemma iterate_loop_eq:
  assumes "distinct (map fst d)" "0 < k"
  shows "iterate_loop d (map fst d) (int (length d)) (int k) (int r)
           = Some (Inr (pages_of k (drop r (map snd d))))"
proof (induction "length d - r" arbitrary: r rule: less_induct)
  case less
  show ?case
  proof (cases "r < length d")
    case False
    then show ?thesis
      by (subst iterate_loop.simps) (simp add: pages_of.simps)
  next
    case True
    have m: "min (int r + int k) (int (length d)) = int (min (r + k) (length d))"
      by simp
    have p: "page d (map fst d) (int r) (min (int r + int k) (int (length d)))
               = Inr (take k (drop r (map snd d)))"
      unfolding m using assms(1) by (subst page_eq) (auto simp: min_def)
    have "length d - (r + k) < length d - r" using True assms(2) by simp
    from less [OF this]
    have rec: "iterate_loop d (map fst d) (int (length d)) (int k) (int r + int k)
                 = Some (Inr (pages_of k (drop (r + k) (map snd d))))"
      by simp
    have "pages_of k (drop r (map snd d))
            = take k (drop r (map snd d)) # pages_of k (drop (r + k) (map snd d))"
      using True assms(2) by (subst pages_of.simps) (simp add: add.commute)
    with True p rec show ?thesis
      by (subst iterate_loop.simps) (simp add: thenE_def)
  qed
qed

lemma concat_pages_of: "0 < k \<Longrightarrow> concat (pages_of k xs) = xs"
proof (induction k xs rule: pages_of.induct)
  case (1 k xs)
  then show ?case by (subst pages_of.simps) auto
qed

lemma pages_of_Nil [simp]: "pages_of k [] = []"
  by (simp add: pages_of.simps)

lemma pages_of_eq_Nil: "0 < k \<Longrightarrow> pages_of k xs = [] \<longleftrightarrow> xs = []"
  by (subst pages_of.simps) simp

lemma pages_of_full: "0 < k \<Longrightarrow> p \<in> set (butlast (pages_of k xs)) \<Longrightarrow> length p = k"
proof (induction k xs arbitrary: p rule: pages_of.induct)
  case (1 k xs)
  show ?case
  proof (cases "xs = []")
    case True
    with 1 show ?thesis by simp
  next
    case False
    with "1.prems" have ps: "pages_of k xs = take k xs # pages_of k (drop k xs)"
      by (subst pages_of.simps) simp
    show ?thesis
    proof (cases "drop k xs = []")
      case True
      with ps "1.prems" show ?thesis by simp
    next
      case d: False
      then have ne: "pages_of k (drop k xs) \<noteq> []"
        using "1.prems"(1) by (simp add: pages_of_eq_Nil)
      with ps "1.prems"(2)
      have "p = take k xs \<or> p \<in> set (butlast (pages_of k (drop k xs)))" by simp
      then show ?thesis
      proof
        assume "p = take k xs"
        with d show ?thesis by simp
      next
        assume "p \<in> set (butlast (pages_of k (drop k xs)))"
        with "1.IH" False "1.prems"(1) show ?thesis by simp
      qed
    qed
  qed
qed

lemma pages_of_sizes: "0 < k \<Longrightarrow> p \<in> set (pages_of k xs) \<Longrightarrow> 1 \<le> length p \<and> length p \<le> k"
proof (induction k xs arbitrary: p rule: pages_of.induct)
  case (1 k xs)
  show ?case
  proof (cases "xs = []")
    case True
    with 1 show ?thesis by simp
  next
    case False
    with "1.prems" have "pages_of k xs = take k xs # pages_of k (drop k xs)"
      by (subst pages_of.simps) simp
    with "1.prems"(2) have "p = take k xs \<or> p \<in> set (pages_of k (drop k xs))" by simp
    then show ?thesis
    proof
      assume "p = take k xs"
      with False "1.prems"(1) show ?thesis by (cases xs) auto
    next
      assume "p \<in> set (pages_of k (drop k xs))"
      with "1.IH" False "1.prems"(1) show ?thesis by simp
    qed
  qed
qed

lemma pages_of_5_2: "length xs = 5 \<Longrightarrow> map length (pages_of 2 xs) = [2, 2, 1]"
proof -
  assume "length xs = 5"
  then obtain a b c d e where "xs = [a, b, c, d, e]"
    by (auto simp: length_Suc_conv eval_nat_numeral)
  then show ?thesis by (simp add: pages_of.simps)
qed

lemma dict_setitem_keys:
  "dict_keys (dict_setitem k v d) = (if k \<in> set (dict_keys d) then dict_keys d else dict_keys d @ [k])"
proof (induction d)
  case Nil
  show ?case by (simp add: dict_keys_def)
next
  case (Cons a d)
  obtain k' v' where a: "a = (k', v')" by (cases a)
  show ?case
  proof (cases "k' = k")
    case True
    then show ?thesis by (simp add: a dict_keys_def)
  next
    case False
    with Cons show ?thesis by (simp add: a dict_keys_def)
  qed
qed

lemma add_record_distinct:
  "distinct (dict_keys (data book)) \<Longrightarrow> distinct (dict_keys (data (add_record r book)))"
  by (simp add: add_record_def dict_setitem_keys)

lemma delete_distinct:
  "distinct (dict_keys (data book)) \<Longrightarrow> distinct (dict_keys (data (snd (delete n book))))"
  by (simp add: delete_def dict_delitem_def dict_keys_def distinct_map_filter)

text \<open>
  Claim C5. For a page size above zero the generator ends, and without an exception. Its
  pages, one after the other, are the records of the book in the order of insertion,
  each once. Every page but the last has exactly the page size, the last has at least
  one record and at most the page size, and an empty book gives no page. Five records
  with page size 2 give pages of 2, 2 and 1 records. The keys of the dictionary are
  distinct, as the keys of a \<open>dict\<close> are.
\<close>

theorem iterate_pages:
  assumes "0 < per" "distinct (dict_keys (data book))"
  shows "\<exists>pages. iterate per book = Some (Inr pages)
     \<and> concat pages = dict_values (data book)
     \<and> (\<forall>p \<in> set (butlast pages). int (length p) = per)
     \<and> (pages \<noteq> [] \<longrightarrow> 1 \<le> length (last pages) \<and> int (length (last pages)) \<le> per)
     \<and> (data book = [] \<longrightarrow> pages = [])
     \<and> (per = 2 \<and> length (data book) = 5 \<longrightarrow> map length pages = [2, 2, 1])"
proof -
  define k where "k = nat per"
  with assms(1) have k: "0 < k" "per = int k" by simp_all
  let ?pages = "pages_of k (dict_values (data book))"
  have f1: "iterate per book = Some (Inr ?pages)"
    using iterate_loop_eq [OF assms(2) [unfolded dict_keys_def] k(1), of 0]
    by (simp add: iterate_def dict_keys_def dict_values_def k(2))
  have f2: "concat ?pages = dict_values (data book)"
    using k(1) by (rule concat_pages_of)
  have f3: "\<forall>p \<in> set (butlast ?pages). int (length p) = per"
    using pages_of_full [OF k(1)] k(2) by auto
  have f4: "?pages \<noteq> [] \<longrightarrow> 1 \<le> length (last ?pages) \<and> int (length (last ?pages)) \<le> per"
    using pages_of_sizes [OF k(1), of "last ?pages" "dict_values (data book)"] k(2) by auto
  have f5: "data book = [] \<longrightarrow> ?pages = []"
    by (simp add: dict_values_def)
  have f6: "per = 2 \<and> length (data book) = 5 \<longrightarrow> map length ?pages = [2, 2, 1]"
  proof
    assume a: "per = 2 \<and> length (data book) = 5"
    from a k(2) have "k = 2" by linarith
    moreover from a have "length (dict_values (data book)) = 5"
      by (simp add: dict_values_def)
    ultimately show "map length ?pages = [2, 2, 1]"
      using pages_of_5_2 [of "dict_values (data book)"] by simp
  qed
  show ?thesis
    by (rule exI [of _ ?pages]) (intro conjI; fact)
qed

theorem iterate_pages_witness:
  "(0::int) < 2 \<and> distinct (dict_keys (data three_contacts))
   \<and> (\<exists>pages. iterate 2 three_contacts = Some (Inr pages)
        \<and> concat pages = dict_values (data three_contacts))"
proof -
  have p: "(0::int) < 2" by simp
  have d: "distinct (dict_keys (data three_contacts))"
    by (simp add: three_contacts_def dict_keys_def)
  have "\<exists>pages. iterate 2 three_contacts = Some (Inr pages)
        \<and> concat pages = dict_values (data three_contacts)"
    using iterate_pages [of 2 three_contacts, OF p d] by blast
  with d show ?thesis by simp
qed


section \<open>Saving and loading\<close>

lemma read_written:
  "pickle_load (pickle_dump (data book)) = Inr d \<Longrightarrow>
   read_contacts_from_file pickle_load filename (write_to_file pickle_dump filename book fs)
     = Inr \<lparr>data = d\<rparr>"
  by (simp add: read_contacts_from_file_def write_to_file_def open_rb_def thenE_def
      AddressBook_init_def)

text \<open>
  Claim C4. Saving a book and loading the file again gives a book with the same names in
  the same order, and under each name a record with the same list of phones and the same
  birthday. \<open>pickle\<close> is taken to read back the dictionary it wrote.
\<close>

theorem load_save_round_trip:
  assumes "pickle_load (pickle_dump (data book)) = Inr (data book)"
  shows "\<exists>book'.
     read_contacts_from_file pickle_load filename (write_to_file pickle_dump filename book fs)
       = Inr book'
     \<and> dict_keys (data book') = dict_keys (data book)
     \<and> (\<forall>n \<in> set (dict_keys (data book)).
          \<exists>r r'. map_of (data book) n = Some r \<and> map_of (data book') n = Some r'
            \<and> phones r' = phones r \<and> birthday r' = birthday r)"
proof -
  have "\<exists>r. map_of (data book) n = Some r" if "n \<in> set (dict_keys (data book))" for n
    using that by (metis dict_keys_def map_of_eq_None_iff not_Some_eq set_map)
  then have "\<forall>n \<in> set (dict_keys (data book)).
          \<exists>r r'. map_of (data book) n = Some r \<and> map_of (data \<lparr>data = data book\<rparr>) n = Some r'
            \<and> phones r' = phones r \<and> birthday r' = birthday r"
    by fastforce
  moreover have "dict_keys (data \<lparr>data = data book\<rparr>) = dict_keys (data book)"
    by simp
  ultimately show ?thesis
    using read_written [of pickle_load pickle_dump book "data book" filename fs, OF assms]
    by blast
qed

theorem load_save_round_trip_witness:
  "example_load (Some (data three_contacts)) = Inr (data three_contacts)
   \<and> (\<exists>book'. read_contacts_from_file example_load ''my_address_book''
          (write_to_file Some ''my_address_book'' three_contacts Map.empty) = Inr book'
        \<and> dict_keys (data book') = dict_keys (data three_contacts))"
proof -
  have h: "example_load (Some (data three_contacts)) = Inr (data three_contacts)"
    by (simp add: example_load_def)
  from load_save_round_trip [of example_load Some three_contacts "''my_address_book''" Map.empty, OF h]
  have "\<exists>book'. read_contacts_from_file example_load ''my_address_book''
          (write_to_file Some ''my_address_book'' three_contacts Map.empty) = Inr book'
        \<and> dict_keys (data book') = dict_keys (data three_contacts)"
    by blast
  with h show ?thesis by (rule conjI)
qed









section \<open>Days to the next birthday\<close>

lemma div_step:
  assumes "0 < n"
  shows "(y::int) div n = (y - 1) div n + (if y mod n = 0 then 1 else 0)"
proof (cases "y mod n = 0")
  case True
  have "y = n * (y div n) + y mod n" by simp
  with True have "y = n * (y div n)" by simp
  then have "y - 1 = n * (y div n - 1) + (n - 1)"
    by (simp add: algebra_simps)
  then have "(y - 1) div n = y div n - 1"
    by (rule int_div_pos_eq) (use assms in simp_all)
  with True show ?thesis by simp
next
  case False
  have "0 \<le> y mod n" "y mod n < n" using assms by simp_all
  with False have r: "0 \<le> y mod n - 1" "y mod n - 1 < n" by simp_all
  have "y - 1 = n * (y div n) + (y mod n - 1)"
    by simp
  then have "(y - 1) div n = y div n"
    using r by (rule int_div_pos_eq)
  with False show ?thesis by simp
qed

lemma mod_100_4:
  assumes "(y::int) mod 100 = 0"
  shows "y mod 4 = 0"
proof -
  have "y mod 4 = y mod 100 mod 4" by (simp add: mod_mod_cancel)
  with assms show ?thesis by simp
qed

lemma mod_400_100:
  assumes "(y::int) mod 400 = 0"
  shows "y mod 100 = 0"
proof -
  have "y mod 100 = y mod 400 mod 100" by (simp add: mod_mod_cancel)
  with assms show ?thesis by simp
qed

lemma year_step_arith:
  "(p4::int) = q4 + a \<Longrightarrow> p100 = q100 + b \<Longrightarrow> p400 = q400 + c \<Longrightarrow>
   y * 365 + p4 - p100 + p400 = (y - 1) * 365 + q4 - q100 + q400 + (365 + a - b + c)"
  by (simp add: algebra_simps)

lemma leap_day_count:
  "365 + (if y mod 4 = 0 then 1 else 0) - (if y mod 100 = 0 then 1 else 0)
       + (if y mod 400 = 0 then 1 else 0)
     = (if is_leap y then 366 else (365::int))"
proof -
  consider (c400) "y mod 400 = 0" | (c100) "y mod 400 \<noteq> 0" "y mod 100 = 0"
    | (c4) "y mod 100 \<noteq> 0" "y mod 4 = 0" | (c1) "y mod 4 \<noteq> 0"
    by blast
  then show ?thesis
  proof cases
    case c400
    then have m100: "y mod 100 = 0" by (rule mod_400_100)
    then have m4: "y mod 4 = 0" by (rule mod_100_4)
    show ?thesis using c400 m100 m4 by (simp add: is_leap_def)
  next
    case c100
    then have m4: "y mod 4 = 0" by (intro mod_100_4)
    show ?thesis using c100 m4 by (simp add: is_leap_def)
  next
    case c4
    have n400: "y mod 400 \<noteq> 0" using c4(1) mod_400_100 [of y] by auto
    show ?thesis using c4 n400 by (simp add: is_leap_def)
  next
    case c1
    have n100: "y mod 100 \<noteq> 0" using c1 mod_100_4 [of y] by auto
    have n400: "y mod 400 \<noteq> 0" using n100 mod_400_100 [of y] by auto
    show ?thesis using c1 n100 n400 by (simp add: is_leap_def)
  qed
qed

lemma days_before_year_step:
  "days_before_year (y + 1) = days_before_year y + (if is_leap y then 366 else 365)"
proof -
  have a: "y div 4 = (y - 1) div 4 + (if y mod 4 = 0 then 1 else 0)"
    by (rule div_step) simp
  have b: "y div 100 = (y - 1) div 100 + (if y mod 100 = 0 then 1 else 0)"
    by (rule div_step) simp
  have c: "y div 400 = (y - 1) div 400 + (if y mod 400 = 0 then 1 else 0)"
    by (rule div_step) simp
  have "days_before_year (y + 1) = y * 365 + y div 4 - y div 100 + y div 400"
    by (simp add: days_before_year_def)
  also note year_step_arith [OF a b c, of y]
  also have "(y - 1) * 365 + (y - 1) div 4 - (y - 1) div 100 + (y - 1) div 400
      = days_before_year y"
    by (simp only: days_before_year_def)
  finally show ?thesis by (simp only: leap_day_count)
qed

lemma month_cases:
  "1 \<le> m \<Longrightarrow> m \<le> (12::int) \<Longrightarrow>
   m = 1 \<or> m = 2 \<or> m = 3 \<or> m = 4 \<or> m = 5 \<or> m = 6 \<or> m = 7 \<or> m = 8 \<or> m = 9
     \<or> m = 10 \<or> m = 11 \<or> m = 12"
  by arith

lemma days_before_month_step:
  assumes "1 \<le> m" "m < 12"
  shows "days_before_month y (m + 1) = days_before_month y m + days_in_month y m"
proof -
  from assms have "m = 1 \<or> m = 2 \<or> m = 3 \<or> m = 4 \<or> m = 5 \<or> m = 6 \<or> m = 7 \<or> m = 8
      \<or> m = 9 \<or> m = 10 \<or> m = 11"
    by arith
  then show ?thesis
    by (elim disjE) (simp_all add: days_before_month_def days_in_month_def month_lengths_def)
qed

lemma days_in_month_lower:
  assumes "1 \<le> m" "m \<le> 12"
  shows "28 \<le> days_in_month y m"
proof -
  from month_cases [OF assms] show ?thesis
    by (elim disjE) (simp_all add: days_in_month_def month_lengths_def)
qed

lemma days_before_month_lower:
  assumes "1 \<le> m" "m \<le> 12"
  shows "0 \<le> days_before_month y m"
proof -
  from month_cases [OF assms] show ?thesis
    by (elim disjE) (simp_all add: days_before_month_def month_lengths_def)
qed

lemma days_before_month_next:
  assumes "1 \<le> m1" "m1 < m2" "m2 \<le> 12"
  shows "days_before_month y m1 + days_in_month y m1 \<le> days_before_month y m2"
proof -
  have "m1 + 1 \<le> m2" using assms(2) by simp
  then have "m2 \<le> 12 \<longrightarrow> days_before_month y m1 + days_in_month y m1 \<le> days_before_month y m2"
  proof (induction m2 rule: int_ge_induct)
    case base
    then show ?case using assms(1) by (simp add: days_before_month_step)
  next
    case (step i)
    show ?case
    proof
      assume i: "i + 1 \<le> 12"
      with step assms(1) have "days_before_month y (i + 1) = days_before_month y i + days_in_month y i"
        by (intro days_before_month_step) simp_all
      moreover have "28 \<le> days_in_month y i"
        using step(1) assms(1) i by (intro days_in_month_lower) simp_all
      ultimately show "days_before_month y m1 + days_in_month y m1 \<le> days_before_month y (i + 1)"
        using step i by simp
    qed
  qed
  with assms(3) show ?thesis by simp
qed

lemma year_length:
  assumes "1 \<le> m" "m \<le> 12" "d \<le> days_in_month y m"
  shows "days_before_month y m + d \<le> (if is_leap y then 366 else 365)"
proof (cases "m = 12")
  case True
  with assms(3) show ?thesis
    by (simp add: days_before_month_def days_in_month_def month_lengths_def)
next
  case False
  with assms have "days_before_month y m + days_in_month y m \<le> days_before_month y 12"
    by (intro days_before_month_next) simp_all
  moreover have "days_before_month y 12 \<le> (if is_leap y then 335 else 334)"
    by (simp add: days_before_month_def month_lengths_def)
  ultimately show ?thesis using assms(3) by (simp split: if_splits)
qed

lemma ymd2ord_same_year:
  assumes "1 \<le> m2" "m1 \<le> 12" "1 \<le> d1" "d2 \<le> days_in_month y m2"
    "\<not> (m1 < m2 \<or> (m1 = m2 \<and> d1 < d2))"
  shows "ymd2ord y m2 d2 \<le> ymd2ord y m1 d1"
proof (cases "m1 = m2")
  case True
  with assms(5) show ?thesis by (simp add: ymd2ord_def)
next
  case False
  with assms(5) have "m2 < m1" by simp
  with assms(1,2) have "days_before_month y m2 + days_in_month y m2 \<le> days_before_month y m1"
    by (intro days_before_month_next)
  with assms(3,4) show ?thesis by (simp add: ymd2ord_def)
qed

lemma ymd2ord_next_year:
  assumes "1 \<le> m1" "m1 \<le> 12" "1 \<le> d1" "1 \<le> m2" "m2 \<le> 12" "d2 \<le> days_in_month y m2"
  shows "ymd2ord y m2 d2 < ymd2ord (y + 1) m1 d1"
proof -
  have "days_before_month y m2 + d2 \<le> (if is_leap y then 366 else 365)"
    using assms(4,5,6) by (rule year_length)
  moreover have "0 \<le> days_before_month (y + 1) m1"
    using assms(1,2) by (rule days_before_month_lower)
  ultimately show ?thesis
    using assms(3) by (simp add: ymd2ord_def days_before_year_step split: if_splits)
qed

lemma datetime_ymd_Inr:
  "1 \<le> y \<Longrightarrow> y \<le> 9999 \<Longrightarrow> 1 \<le> m \<Longrightarrow> m \<le> 12 \<Longrightarrow> 1 \<le> d \<Longrightarrow> d \<le> days_in_month y m \<Longrightarrow>
   datetime_ymd y m d
     = Inr \<lparr>year = y, month = m, day = d, hour = 0, minute = 0, second = 0, microsecond = 0\<rparr>"
  by (simp add: datetime_ymd_def check_date_fields_def)

lemma sub_days_midnight:
  "sub_days \<lparr>year = y1, month = m1, day = d1, hour = 0, minute = 0, second = 0, microsecond = 0\<rparr>
            \<lparr>year = y2, month = m2, day = d2, hour = 0, minute = 0, second = 0, microsecond = 0\<rparr>
     = ymd2ord y1 m1 d1 - ymd2ord y2 m2 d2"
proof -
  have "ymd2ord y1 m1 d1 * 86400 * 1000000 - ymd2ord y2 m2 d2 * 86400 * 1000000
          = (ymd2ord y1 m1 d1 - ymd2ord y2 m2 d2) * (86400 * 1000000)"
    by (simp add: algebra_simps)
  then show ?thesis
    by (simp add: sub_days_def total_microseconds_def toordinal_def)
qed

lemma datetime_less_midnight:
  "datetime_less
     \<lparr>year = y1, month = m1, day = d1, hour = 0, minute = 0, second = 0, microsecond = 0\<rparr>
     \<lparr>year = y2, month = m2, day = d2, hour = 0, minute = 0, second = 0, microsecond = 0\<rparr>
   \<longleftrightarrow> y1 < y2 \<or> (y1 = y2 \<and> (m1 < m2 \<or> (m1 = m2 \<and> d1 < d2)))"
  by (simp add: datetime_less_def getstate_def)



lemma days_to_birthday_general:
  assumes now: "valid_datetime now"
    and b: "birthday r = Some (Field (PDateTime b))" "valid_datetime b"
    and this_year: "day b \<le> days_in_month (year now) (month b)"
    and next_year: "birthday_passed now b \<Longrightarrow>
        year now < 9999 \<and> day b \<le> days_in_month (year now + 1) (month b)"
  shows "days_to_birthday now r
       = Inr (Days (ymd2ord (next_birthday_year now b) (month b) (day b)
                     - ymd2ord (year now) (month now) (day now)))
     \<and> 0 \<le> ymd2ord (next_birthday_year now b) (month b) (day b)
                     - ymd2ord (year now) (month now) (day now)"
proof -
  from now have n: "1 \<le> year now" "year now \<le> 9999" "1 \<le> month now" "month now \<le> 12"
      "1 \<le> day now" "day now \<le> days_in_month (year now) (month now)"
    by (simp_all add: valid_datetime_def)
  from b(2) have bb: "1 \<le> month b" "month b \<le> 12" "1 \<le> day b"
    by (simp_all add: valid_datetime_def)
  have t: "datetime_ymd (year now) (month now) (day now)
             = Inr (midnight (year now) (month now) (day now))"
    unfolding midnight_def using n by (intro datetime_ymd_Inr)
  have nb: "datetime_ymd (year now) (month b) (day b)
              = Inr (midnight (year now) (month b) (day b))"
    unfolding midnight_def using n(1,2) bb this_year by (intro datetime_ymd_Inr)
  have less: "datetime_less (midnight (year now) (month b) (day b))
                (midnight (year now) (month now) (day now)) \<longleftrightarrow> birthday_passed now b"
    by (simp add: midnight_def datetime_less_midnight birthday_passed_def)
  have sub: "sub_days (midnight y (month b) (day b)) (midnight (year now) (month now) (day now))
               = ymd2ord y (month b) (day b) - ymd2ord (year now) (month now) (day now)" for y
    by (simp add: midnight_def sub_days_midnight)
  show ?thesis
  proof (cases "birthday_passed now b")
    case True
    from next_year [OF True] have ny: "1 \<le> year now + 1" "year now + 1 \<le> 9999"
        "day b \<le> days_in_month (year now + 1) (month b)"
      using n(1) by simp_all
    have nb': "datetime_ymd (year now + 1) (month b) (day b)
                 = Inr (midnight (year now + 1) (month b) (day b))"
      unfolding midnight_def using ny bb by (intro datetime_ymd_Inr)
    have "days_to_birthday now r
            = Inr (Days (ymd2ord (year now + 1) (month b) (day b)
                     - ymd2ord (year now) (month now) (day now)))"
      using True by (simp add: days_to_birthday_def b(1) thenE_def strftime_int_def t nb nb' less sub)
    moreover have "ymd2ord (year now) (month now) (day now)
                     < ymd2ord (year now + 1) (month b) (day b)"
      using bb n(3,4,6) by (intro ymd2ord_next_year)
    ultimately show ?thesis using True by (simp add: next_birthday_year_def)
  next
    case False
    have "days_to_birthday now r
            = Inr (Days (ymd2ord (year now) (month b) (day b)
                     - ymd2ord (year now) (month now) (day now)))"
      using False by (simp add: days_to_birthday_def b(1) thenE_def strftime_int_def t nb less sub)
    moreover have "ymd2ord (year now) (month now) (day now)
                     \<le> ymd2ord (year now) (month b) (day b)"
      using n(3,6) bb(2,3) False [unfolded birthday_passed_def] by (intro ymd2ord_same_year)
    ultimately show ?thesis using False by (simp add: next_birthday_year_def)
  qed
qed

lemma days_to_birthday_15:
  "days_to_birthday morning_of_2024_01_10 (contact_born (PDateTime (midnight 1990 1 15)))
     = Inr (Days 5)"
  by (simp add: days_to_birthday_def contact_born_def morning_of_2024_01_10_def midnight_def
      thenE_def strftime_int_def datetime_ymd_def check_date_fields_def days_in_month_def
      month_lengths_def is_leap_def datetime_less_def getstate_def sub_days_def
      total_microseconds_def toordinal_def ymd2ord_def days_before_year_def
      days_before_month_def)

lemma days_to_birthday_05:
  "days_to_birthday morning_of_2024_01_10 (contact_born (PDateTime (midnight 1990 1 5)))
     = Inr (Days 361)"
  by (simp add: days_to_birthday_def contact_born_def morning_of_2024_01_10_def midnight_def
      thenE_def strftime_int_def datetime_ymd_def check_date_fields_def days_in_month_def
      month_lengths_def is_leap_def datetime_less_def getstate_def sub_days_def
      total_microseconds_def toordinal_def ymd2ord_def days_before_year_def
      days_before_month_def)

lemma days_to_birthday_str:
  "Record_init ''X'' (Some ''05.01.1990'') = Inr (contact_born (PStr ''05.01.1990''))
   \<and> days_to_birthday morning_of_2024_01_10 (contact_born (PStr ''05.01.1990''))
     = Inl AttributeError"
  by code_simp


text \<open>
  Claim C2, as amended. For a record whose birthday holds a datetime, with today a valid
  date, this year's occurrence of the birthday a valid date and, when it is strictly
  before today, next year's a valid date too, \<open>days_to_birthday\<close> returns the number of
  days from today's date to the next birthday, which is this year's occurrence or, when
  that is strictly before today, next year's. The number is never negative and the time
  of day plays no part. On 2024-01-10 a birthday on 15.01 gives 5 and a birthday on 05.01
  gives 361.
\<close>

theorem days_to_birthday_count:
  assumes "valid_datetime now"
    and "birthday r = Some (Field (PDateTime b))" and "valid_datetime b"
    and "day b \<le> days_in_month (year now) (month b)"
    and "birthday_passed now b \<longrightarrow>
           year now < 9999 \<and> day b \<le> days_in_month (year now + 1) (month b)"
  shows "days_to_birthday now r
       = Inr (Days (ymd2ord (next_birthday_year now b) (month b) (day b)
                     - ymd2ord (year now) (month now) (day now)))
     \<and> 0 \<le> ymd2ord (next_birthday_year now b) (month b) (day b)
                     - ymd2ord (year now) (month now) (day now)
     \<and> days_to_birthday morning_of_2024_01_10 (contact_born (PDateTime (midnight 1990 1 15)))
         = Inr (Days 5)
     \<and> days_to_birthday morning_of_2024_01_10 (contact_born (PDateTime (midnight 1990 1 5)))
         = Inr (Days 361)"
  using days_to_birthday_general [of now r b] assms days_to_birthday_15 days_to_birthday_05
  by blast

theorem days_to_birthday_count_witness:
  "valid_datetime morning_of_2024_01_10 \<and> valid_datetime (midnight 1990 1 5)
   \<and> birthday_passed morning_of_2024_01_10 (midnight 1990 1 5)
   \<and> days_to_birthday morning_of_2024_01_10 (contact_born (PDateTime (midnight 1990 1 5)))
       = Inr (Days (ymd2ord 2025 1 5 - ymd2ord 2024 1 10))
   \<and> ymd2ord 2025 1 5 - ymd2ord 2024 1 10 = 361"
  using days_to_birthday_count [of morning_of_2024_01_10
      "contact_born (PDateTime (midnight 1990 1 5))" "midnight 1990 1 5"]
  by (simp add: valid_datetime_def morning_of_2024_01_10_def midnight_def contact_born_def
      birthday_passed_def next_birthday_year_def days_in_month_def month_lengths_def
      is_leap_def ymd2ord_def days_before_year_def days_before_month_def)

text \<open>
  Claim C2 as the specification has it fails on 2024-01-10 for a birthday on 05.01.1990.
  The record built from that text holds the text, and \<open>days_to_birthday\<close> raises
  \<open>AttributeError\<close> on it. With the datetime of that day in its place the result is 361,
  not 360.
\<close>

theorem days_to_birthday_counterexample:
  "Record_init ''X'' (Some ''05.01.1990'') = Inr (contact_born (PStr ''05.01.1990''))
   \<and> days_to_birthday morning_of_2024_01_10 (contact_born (PStr ''05.01.1990''))
       = Inl AttributeError
   \<and> days_to_birthday morning_of_2024_01_10 (contact_born (PDateTime (midnight 1990 1 5)))
       = Inr (Days 361)"
  using days_to_birthday_str days_to_birthday_05 by simp

section \<open>Parsing a birthday\<close>


lemma in_range_code:
  "in_range lo hi c \<longleftrightarrow> (of_char lo :: nat) \<le> of_char c \<and> (of_char c :: nat) \<le> of_char hi"
  by (simp add: in_range_def)










lemma re1_set: "(t, r) \<in> set (re1 P s) \<longleftrightarrow> (\<exists>a. t = [a] \<and> s = a # r \<and> P a)"
  by (auto simp: re1_def split: list.splits)

lemma re2_set: "(t, r) \<in> set (re2 P Q s) \<longleftrightarrow> (\<exists>a b. t = [a, b] \<and> s = a # b # r \<and> P a \<and> Q b)"
  by (auto simp: re2_def split: list.splits)


































end
